theory Spec2Isabelle
  imports Main
begin

section \<open>Values, failures and deferred operations\<close>

text \<open>
  An operation may fail with any value: \<^verbatim>\<open>throw\<close> and \<^verbatim>\<open>reject\<close> take whatever they are given.
  The recovery helpers of \<^verbatim>\<open>src/errors/try-catch.js\<close> do one thing with a failure reason:
  they read its \<^verbatim>\<open>message\<close> property, and render it in a template literal. So a value is a
  primitive or an object, and an object is the text of its \<^verbatim>\<open>message\<close> together with the rest
  of the object, of any type. The text is \<open>None\<close> when the object has no such property, and
  otherwise the string that a template literal renders the property to: for the string that
  the \<^verbatim>\<open>Error\<close> constructor stores, that string. A property whose read or rendering itself
  raises is not modelled.
\<close>

datatype 'x js_value =
    Undefined
  | Null
  | Boolean bool
  | Num int
  | Str string
  | Obj "string option" 'x

text \<open>
  Reading \<^verbatim>\<open>v.message\<close>: of \<^verbatim>\<open>undefined\<close> and \<^verbatim>\<open>null\<close> it raises a \<^verbatim>\<open>TypeError\<close>; a
  boolean, a number and a string have no such property (the read gives \<^verbatim>\<open>undefined\<close>);
  an object gives what it holds. What the helpers themselves throw is that \<^verbatim>\<open>TypeError\<close> or
  \<^verbatim>\<open>new Error(msg)\<close>.
\<close>

datatype js_error = Error string | TypeError

fun nullish :: "'x js_value \<Rightarrow> bool" where
  "nullish Undefined = True"
| "nullish Null = True"
| "nullish (Boolean b) = False"
| "nullish (Num i) = False"
| "nullish (Str str) = False"
| "nullish (Obj m x) = False"

fun message_of :: "'x js_value \<Rightarrow> string option" where
  "message_of (Obj m x) = m"
| "message_of v = None"

definition read_message :: "'x js_value \<Rightarrow> js_error + string option" where
  "read_message v = (if nullish v then Inl TypeError else Inr (message_of v))"

text \<open>
  A template literal renders what was read: the text of the property, or \<^verbatim>\<open>undefined\<close> when
  there was none.
\<close>

fun ToString :: "string option \<Rightarrow> string" where
  "ToString None = ''undefined''"
| "ToString (Some str) = str"

text \<open>
  A deferred operation is a zero-argument callable whose awaited invocation either yields a
  value (\<open>Inr\<close>) or fails with a reason (\<open>Inl\<close>). It may depend on and change the world
  around it (a call counter, a random source), so it is a function from the world before the
  invocation to the outcome and the world after it.
\<close>

type_synonym ('s, 'e, 'a) deferred = "'s \<Rightarrow> ('e + 'a) \<times> 's"

text \<open>
  What an executor does to its environment, in order: invocations of the operations it was
  given and the timers it awaits (\<^verbatim>\<open>setTimeout(resolve, ms)\<close>). Console output is not part of
  the trace.
\<close>

datatype opref = Operation | PrimaryOperation | FallbackOperation

datatype effect = Invoke opref | SetTimeout int

text \<open>
  A template literal renders a number by \<^verbatim>\<open>Number.prototype.toString\<close>: for an integer, its
  decimal digits, after a minus sign when it is negative.
\<close>

definition digits :: string where
  "digits = ''0123456789''"

fun decimal :: "nat \<Rightarrow> string" where
  "decimal n =
     (if n < 10 then [digits ! n] else decimal (n div 10) @ [digits ! (n mod 10)])"

declare decimal.simps [simp del]

definition Number_toString :: "int \<Rightarrow> string" where
  "Number_toString i = (if 0 \<le> i then decimal (nat i) else CHR ''-'' # decimal (nat (- i)))"

section \<open>retryOperation\<close>

text \<open>
  \<^verbatim>\<open>
  const retryOperation = async (operation, maxRetries = 3) => {
      let attempt = 0;
      while (attempt < maxRetries) {
          try {
              console.log(`Attempt ${attempt + 1}/${maxRetries}`);
              const result = await operation();
              console.log("... Operation succeeded");
              return result;
          } catch (error) {
              attempt++;
              console.error(`... Attempt ${attempt} failed:`, error.message);
              if (attempt >= maxRetries) {
                  console.error("... All retry attempts exhausted");
                  throw new Error(
                      `Operation failed after ${maxRetries} attempts: ${error.message}`);
              }
              await new Promise((resolve) => setTimeout(resolve, 100 * attempt));
          }
      }
  };
  \<close>
  The loop is \<open>retry_loop\<close>, with the loop variable \<open>attempt\<close> as an argument; in the
  failure branch \<open>attempt + 1\<close> is the counter after \<^verbatim>\<open>attempt++\<close>. The first thing the
  handler does with the reason is to read \<^verbatim>\<open>error.message\<close>, for the console; when that
  raises, the exception leaves the handler and the call fails with it. The result is
  the settlement of the returned promise: \<open>Inl\<close> the thrown error, \<open>Inr (Some v)\<close> the returned
  value, \<open>Inr None\<close> for falling off the end of the loop (\<^verbatim>\<open>undefined\<close>). With it come the
  world after the call and the trace of effects. Numbers are unbounded integers: the
  counter of a call stays far below the range where a double stops counting exactly.
\<close>

definition baseDelay :: int where
  "baseDelay = 100"

definition exhausted_message :: "int \<Rightarrow> string \<Rightarrow> string" where
  "exhausted_message maxRetries msg =
     ''Operation failed after '' @ Number_toString maxRetries @ '' attempts: '' @ msg"

function retry_loop ::
  "('s, 'x js_value, 'a) deferred \<Rightarrow> int \<Rightarrow> int \<Rightarrow> 's
     \<Rightarrow> (js_error + 'a option) \<times> 's \<times> effect list" where
  "retry_loop operation maxRetries attempt s =
     (if attempt < maxRetries then
        (case operation s of
           (Inr result, s') \<Rightarrow> (Inr (Some result), s', [Invoke Operation])
         | (Inl error, s') \<Rightarrow>
             (case read_message error of
                Inl exn \<Rightarrow> (Inl exn, s', [Invoke Operation])
              | Inr msg \<Rightarrow>
                  (if attempt + 1 \<ge> maxRetries then
                     (Inl (Error (exhausted_message maxRetries (ToString msg))), s',
                      [Invoke Operation])
                   else
                     (case retry_loop operation maxRetries (attempt + 1) s' of
                        (r, s'', tr) \<Rightarrow>
                          (r, s'',
                           Invoke Operation # SetTimeout (baseDelay * (attempt + 1)) # tr)))))
      else (Inr None, s, []))"
  by pat_completeness auto
termination
  by (relation "measure (\<lambda>(operation, maxRetries, attempt, s). nat (maxRetries - attempt))") auto

declare retry_loop.simps [simp del]

definition retryOperation ::
  "('s, 'x js_value, 'a) deferred \<Rightarrow> int \<Rightarrow> 's
     \<Rightarrow> (js_error + 'a option) \<times> 's \<times> effect list" where
  "retryOperation operation maxRetries s = retry_loop operation maxRetries 0 s"

section \<open>withFallback\<close>

text \<open>
  \<^verbatim>\<open>
  const withFallback = async (primaryOperation, fallbackOperation) => {
      try {
          return await primaryOperation();
      } catch (primaryError) {
          console.warn("Primary operation failed, trying fallback");
          try {
              return await fallbackOperation();
          } catch (fallbackError) {
              throw new Error(
                  `Both operations failed. Primary: ${primaryError.message}, Fallback: ${fallbackError.message}`);
          }
      }
  };
  \<close>
  The two reasons are read only when both operations have failed, the primary's first; a
  read that raises ends the call with its exception.
\<close>

definition both_failed_message :: "string \<Rightarrow> string \<Rightarrow> string" where
  "both_failed_message pmsg fmsg =
     ''Both operations failed. Primary: '' @ pmsg @ '', Fallback: '' @ fmsg"

definition withFallback ::
  "('s, 'x js_value, 'a) deferred \<Rightarrow> ('s, 'y js_value, 'a) deferred \<Rightarrow> 's
     \<Rightarrow> (js_error + 'a) \<times> 's \<times> effect list" where
  "withFallback primaryOperation fallbackOperation s =
     (case primaryOperation s of
        (Inr v, s1) \<Rightarrow> (Inr v, s1, [Invoke PrimaryOperation])
      | (Inl primaryError, s1) \<Rightarrow>
          (case fallbackOperation s1 of
             (Inr v, s2) \<Rightarrow> (Inr v, s2, [Invoke PrimaryOperation, Invoke FallbackOperation])
           | (Inl fallbackError, s2) \<Rightarrow>
               (case read_message primaryError of
                  Inl exn \<Rightarrow> (Inl exn, s2, [Invoke PrimaryOperation, Invoke FallbackOperation])
                | Inr pmsg \<Rightarrow>
                    (case read_message fallbackError of
                       Inl exn \<Rightarrow>
                         (Inl exn, s2, [Invoke PrimaryOperation, Invoke FallbackOperation])
                     | Inr fmsg \<Rightarrow>
                         (Inl (Error (both_failed_message (ToString pmsg) (ToString fmsg))),
                          s2, [Invoke PrimaryOperation, Invoke FallbackOperation])))))"

section \<open>Observing a run\<close>

text \<open>
  An executor call returns the settlement of its promise, the world it leaves and its trace.
\<close>

definition settlement_of :: "'r \<times> 's \<times> effect list \<Rightarrow> 'r" where
  "settlement_of run = fst run"

definition world_of :: "'r \<times> 's \<times> effect list \<Rightarrow> 's" where
  "world_of run = fst (snd run)"

definition trace_of :: "'r \<times> 's \<times> effect list \<Rightarrow> effect list" where
  "trace_of run = snd (snd run)"

definition invocations :: "opref \<Rightarrow> effect list \<Rightarrow> nat" where
  "invocations r tr = length (filter (\<lambda>e. e = Invoke r) tr)"


text \<open>
  \<open>nth_state operation s n\<close> is the world after \<open>n\<close> successive invocations of the operation
  from \<open>s\<close>, and \<open>nth_outcome operation s n\<close> the outcome of the invocation that follows them:
  invocation number \<open>n + 1\<close>.
\<close>

fun nth_state :: "('s, 'e, 'a) deferred \<Rightarrow> 's \<Rightarrow> nat \<Rightarrow> 's" where
  "nth_state operation s 0 = s"
| "nth_state operation s (Suc n) = nth_state operation (snd (operation s)) n"

definition nth_outcome :: "('s, 'e, 'a) deferred \<Rightarrow> 's \<Rightarrow> nat \<Rightarrow> 'e + 'a" where
  "nth_outcome operation s n = fst (operation (nth_state operation s n))"


definition backoff_from :: "int \<Rightarrow> nat \<Rightarrow> effect list" where
  "backoff_from a n =
     concat (map (\<lambda>k. [Invoke Operation, SetTimeout (baseDelay * (a + int k))]) [1..<n])
       @ [Invoke Operation]"

section \<open>The operation tracker\<close>

text \<open>
  \<^verbatim>\<open>
  constructor() {
      this.requestId = 0;
      this.pendingOperations = new Set();
      this.completedOperations = [];
  }
  \<close>
  The tracker is the pair of collections that \<^verbatim>\<open>createTrackedPromise\<close> maintains
  (\<^verbatim>\<open>requestId\<close> is a counter of the fetch functions, which it neither reads nor writes). An entry of
  \<^verbatim>\<open>completedOperations\<close> is \<^verbatim>\<open>{name, status: "fulfilled", result}\<close> or
  \<^verbatim>\<open>{name, status: "rejected", error}\<close>; a property the object does not have is \<open>None\<close>.
  Values and reasons are whatever the tracked promise settles with.
\<close>

record ('e, 'a) completed_operation =
  rec_name :: string
  rec_status :: string
  rec_result :: "'a option"
  rec_error :: "'e option"

record ('e, 'a) tracker =
  pendingOperations :: "string set"
  completedOperations :: "('e, 'a) completed_operation list"

definition new_tracker :: "('e, 'a) tracker" where
  "new_tracker = \<lparr>pendingOperations = {}, completedOperations = []\<rparr>"

text \<open>
  \<^verbatim>\<open>promise.then(f)\<close> and \<^verbatim>\<open>promise.catch(g)\<close> at the moment the promise settles: the handler
  that applies runs on the tracker as it is then, and what it returns (\<open>Inr\<close>) or throws
  (\<open>Inl\<close>) settles the derived promise; a settlement with no handler passes through.
\<close>

definition promise_then ::
  "('a \<Rightarrow> 't \<Rightarrow> ('e + 'b) \<times> 't) \<Rightarrow> 'e + 'a \<Rightarrow> 't \<Rightarrow> ('e + 'b) \<times> 't" where
  "promise_then onFulfilled settlement t =
     (case settlement of Inr v \<Rightarrow> onFulfilled v t | Inl e \<Rightarrow> (Inl e, t))"

definition promise_catch ::
  "('e \<Rightarrow> 't \<Rightarrow> ('f + 'a) \<times> 't) \<Rightarrow> 'e + 'a \<Rightarrow> 't \<Rightarrow> ('f + 'a) \<times> 't" where
  "promise_catch onRejected settlement t =
     (case settlement of Inl e \<Rightarrow> onRejected e t | Inr v \<Rightarrow> (Inr v, t))"

text \<open>
  \<^verbatim>\<open>
  createTrackedPromise(name, promiseFactory) {
      const promise = promiseFactory();
      this.pendingOperations.add(name);
      return promise
          .then((result) => {
              this.pendingOperations.delete(name);
              this.completedOperations.push({ name, status: "fulfilled", result });
              return result;
          })
          .catch((error) => {
              this.pendingOperations.delete(name);
              this.completedOperations.push({ name, status: "rejected", error });
              throw error;
          });
  }
  \<close>
  The factory is the caller's code: invoked, it throws (\<open>Inl\<close>) or returns a promise
  (\<open>Inr\<close>), and it does not touch the two collections. The promise that
  \<^verbatim>\<open>createTrackedPromise\<close> returns is the factory's promise together with the reaction chained
  to it: the function from the settlement of the factory's promise, and the tracker at the
  moment the handler of that settlement runs, to the settlement of the returned promise and
  the tracker afterwards. Of the two handlers only the one of that settlement touches the
  tracker; when each of them runs is told by the sessions below.
\<close>

definition fulfilled_record :: "string \<Rightarrow> 'a \<Rightarrow> ('e, 'a) completed_operation" where
  "fulfilled_record n v =
     \<lparr>rec_name = n, rec_status = ''fulfilled'', rec_result = Some v, rec_error = None\<rparr>"

definition rejected_record :: "string \<Rightarrow> 'e \<Rightarrow> ('e, 'a) completed_operation" where
  "rejected_record n e =
     \<lparr>rec_name = n, rec_status = ''rejected'', rec_result = None, rec_error = Some e\<rparr>"

definition on_fulfilled :: "string \<Rightarrow> 'a \<Rightarrow> ('e, 'a) tracker \<Rightarrow> ('e + 'a) \<times> ('e, 'a) tracker" where
  "on_fulfilled n v t =
     (let t1 = t\<lparr>pendingOperations := pendingOperations t - {n}\<rparr>;
          t2 = t1\<lparr>completedOperations := completedOperations t1 @ [fulfilled_record n v]\<rparr>
      in (Inr v, t2))"

definition on_rejected :: "string \<Rightarrow> 'e \<Rightarrow> ('e, 'a) tracker \<Rightarrow> ('e + 'a) \<times> ('e, 'a) tracker" where
  "on_rejected n e t =
     (let t1 = t\<lparr>pendingOperations := pendingOperations t - {n}\<rparr>;
          t2 = t1\<lparr>completedOperations := completedOperations t1 @ [rejected_record n e]\<rparr>
      in (Inl e, t2))"

type_synonym ('e, 'a) reaction =
  "'e + 'a \<Rightarrow> ('e, 'a) tracker \<Rightarrow> ('e + 'a) \<times> ('e, 'a) tracker"

definition tracked_reaction :: "string \<Rightarrow> ('e, 'a) reaction" where
  "tracked_reaction n settlement t =
     (case promise_then (on_fulfilled n) settlement t of
        (settlement', t') \<Rightarrow> promise_catch (on_rejected n) settlement' t')"

definition createTrackedPromise ::
  "string \<Rightarrow> (unit \<Rightarrow> 'x + 'p) \<Rightarrow> ('e, 'a) tracker
     \<Rightarrow> ('x + 'p \<times> ('e, 'a) reaction) \<times> ('e, 'a) tracker" where
  "createTrackedPromise n promiseFactory t =
     (case promiseFactory () of
        Inl exn \<Rightarrow> (Inl exn, t)
      | Inr promise \<Rightarrow>
          (Inr (promise, tracked_reaction n),
           t\<lparr>pendingOperations := insert n (pendingOperations t)\<rparr>))"

definition record_of :: "string \<Rightarrow> 'e + 'a \<Rightarrow> ('e, 'a) completed_operation" where
  "record_of n settlement =
     (case settlement of Inr v \<Rightarrow> fulfilled_record n v | Inl e \<Rightarrow> rejected_record n e)"

subsection \<open>Tracking sessions\<close>

text \<open>
  The two handlers of the chain do not run when the factory's promise settles, and not
  together. The settlement queues a job for the reaction of \<^verbatim>\<open>.then(...)\<close>; that job runs
  the first handler on a fulfilment and passes a rejection on, and it settles the promise
  that \<^verbatim>\<open>.then\<close> returned, which queues a job for the reaction of \<^verbatim>\<open>.catch(...)\<close>; that one
  runs the second handler on a rejection and passes a fulfilment on. The host runs the
  queued jobs first in, first out.
\<close>

datatype ('e, 'a) job =
    ThenJob string "'e + 'a"
  | CatchJob string "'e + 'a"

record ('e, 'a) event_loop =
  tracker_of :: "('e, 'a) tracker"
  microtasks :: "('e, 'a) job list"

definition new_session :: "('e, 'a) event_loop" where
  "new_session = \<lparr>tracker_of = new_tracker, microtasks = []\<rparr>"

fun run_job :: "('e, 'a) job \<Rightarrow> ('e, 'a) event_loop \<Rightarrow> ('e, 'a) event_loop" where
  "run_job (ThenJob n settlement) st =
     (case promise_then (on_fulfilled n) settlement (tracker_of st) of
        (settlement', t') \<Rightarrow>
          st\<lparr>tracker_of := t', microtasks := microtasks st @ [CatchJob n settlement']\<rparr>)"
| "run_job (CatchJob n settlement) st =
     (case promise_catch (on_rejected n) settlement (tracker_of st) of
        (settlement', t') \<Rightarrow> st\<lparr>tracker_of := t'\<rparr>)"

text \<open>
  What happens to a session, one step at a time: a call of \<^verbatim>\<open>createTrackedPromise\<close>, the
  settlement of a tracked promise, and the run of the job at the head of the queue.
\<close>

definition track ::
  "string \<Rightarrow> (unit \<Rightarrow> 'x + 'p) \<Rightarrow> ('e, 'a) event_loop \<Rightarrow> ('e, 'a) event_loop" where
  "track n promiseFactory st =
     st\<lparr>tracker_of := snd (createTrackedPromise n promiseFactory (tracker_of st))\<rparr>"

definition settle :: "string \<Rightarrow> 'e + 'a \<Rightarrow> ('e, 'a) event_loop \<Rightarrow> ('e, 'a) event_loop" where
  "settle n settlement st = st\<lparr>microtasks := microtasks st @ [ThenJob n settlement]\<rparr>"

definition run_microtask :: "('e, 'a) event_loop \<Rightarrow> ('e, 'a) event_loop" where
  "run_microtask st =
     (case microtasks st of [] \<Rightarrow> st | job # rest \<Rightarrow> run_job job (st\<lparr>microtasks := rest\<rparr>))"

datatype ('x, 'p, 'e, 'a) session_event =
    Track string "unit \<Rightarrow> 'x + 'p"
  | Settle string "'e + 'a"
  | RunMicrotask

fun session_step ::
  "('x, 'p, 'e, 'a) session_event \<Rightarrow> ('e, 'a) event_loop \<Rightarrow> ('e, 'a) event_loop" where
  "session_step (Track n promiseFactory) st = track n promiseFactory st"
| "session_step (Settle n settlement) st = settle n settlement st"
| "session_step RunMicrotask st = run_microtask st"

fun run_session ::
  "('x, 'p, 'e, 'a) session_event list \<Rightarrow> ('e, 'a) event_loop \<Rightarrow> ('e, 'a) event_loop" where
  "run_session [] st = st"
| "run_session (ev # evs) st = run_session evs (session_step ev st)"

text \<open>
  After a task the host runs the queued jobs until none is left. Every job leaves the queue
  lighter: a reaction of \<^verbatim>\<open>.then\<close> is replaced by one of \<^verbatim>\<open>.catch\<close>, and that one by nothing.
\<close>

fun job_weight :: "('e, 'a) job \<Rightarrow> nat" where
  "job_weight (ThenJob n settlement) = 2"
| "job_weight (CatchJob n settlement) = 1"

function drain :: "('e, 'a) event_loop \<Rightarrow> ('e, 'a) event_loop" where
  "drain st = (if microtasks st = [] then st else drain (run_microtask st))"
  by pat_completeness auto
termination
proof (relation "measure (\<lambda>st. sum_list (map job_weight (microtasks st)))", goal_cases)
  case 1
  show ?case by simp
next
  case (2 st)
  then obtain job rest where "microtasks st = job # rest"
    by (cases "microtasks st") auto
  then show ?case
    by (cases job) (simp_all add: run_microtask_def case_prod_beta)
qed

declare drain.simps [simp del]

definition settle_and_drain ::
  "string \<Rightarrow> 'e + 'a \<Rightarrow> ('e, 'a) event_loop \<Rightarrow> ('e, 'a) event_loop" where
  "settle_and_drain n settlement st = drain (settle n settlement st)"


text \<open>The names registered by a session: those of the calls whose factory returned.\<close>

fun registered :: "('x, 'p, 'e, 'a) session_event list \<Rightarrow> string list" where
  "registered [] = []"
| "registered (Track n promiseFactory # evs) =
     (case promiseFactory () of Inl exn \<Rightarrow> registered evs | Inr promise \<Rightarrow> n # registered evs)"
| "registered (Settle n settlement # evs) = registered evs"
| "registered (RunMicrotask # evs) = registered evs"

text \<open>
  A promise settles at most once, and a reaction runs only after it was chained. So in a
  session every settlement is that of a promise in flight: tracked before and not settled yet.
  \<open>well_formed inflight evs\<close> checks this, \<open>inflight\<close> being the names in flight when \<open>evs\<close> start,
  and \<open>inflight_after inflight evs\<close> are the names in flight when \<open>evs\<close> are over.
\<close>

fun well_formed :: "string list \<Rightarrow> ('x, 'p, 'e, 'a) session_event list \<Rightarrow> bool" where
  "well_formed inflight [] = True"
| "well_formed inflight (Track n promiseFactory # evs) =
     (case promiseFactory () of
        Inl exn \<Rightarrow> well_formed inflight evs
      | Inr promise \<Rightarrow> well_formed (n # inflight) evs)"
| "well_formed inflight (Settle n settlement # evs) =
     (n \<in> set inflight \<and> well_formed (remove1 n inflight) evs)"
| "well_formed inflight (RunMicrotask # evs) = well_formed inflight evs"

fun inflight_after :: "string list \<Rightarrow> ('x, 'p, 'e, 'a) session_event list \<Rightarrow> string list" where
  "inflight_after inflight [] = inflight"
| "inflight_after inflight (Track n promiseFactory # evs) =
     (case promiseFactory () of
        Inl exn \<Rightarrow> inflight_after inflight evs
      | Inr promise \<Rightarrow> inflight_after (n # inflight) evs)"
| "inflight_after inflight (Settle n settlement # evs) = inflight_after (remove1 n inflight) evs"
| "inflight_after inflight (RunMicrotask # evs) = inflight_after inflight evs"

definition completed_names :: "('e, 'a) tracker \<Rightarrow> string set" where
  "completed_names t = rec_name ` set (completedOperations t)"

text \<open>
  The record a settlement is to leave, in the words of the specification: the name, the
  status and the value or the reason.
\<close>

definition expected_record :: "string \<Rightarrow> 'e + 'a \<Rightarrow> ('e, 'a) completed_operation" where
  "expected_record n settlement =
     (case settlement of
        Inr v \<Rightarrow>
          \<lparr>rec_name = n, rec_status = ''fulfilled'', rec_result = Some v, rec_error = None\<rparr>
      | Inl e \<Rightarrow>
          \<lparr>rec_name = n, rec_status = ''rejected'', rec_result = None, rec_error = Some e\<rparr>)"

text \<open>
  The settlement that the step about to be taken handles, if it handles one: the job at the
  head of the queue is the reaction of \<^verbatim>\<open>.then\<close> to a fulfilment or the reaction of
  \<^verbatim>\<open>.catch\<close> to a rejection. \<open>recorded evs st\<close> lists the records expected of the steps of
  \<open>evs\<close> that handle a settlement, in the order of these steps.
\<close>

fun handled_by_job :: "('e, 'a) job \<Rightarrow> (string \<times> ('e + 'a)) option" where
  "handled_by_job (ThenJob n (Inr v)) = Some (n, Inr v)"
| "handled_by_job (ThenJob n (Inl e)) = None"
| "handled_by_job (CatchJob n (Inl e)) = Some (n, Inl e)"
| "handled_by_job (CatchJob n (Inr v)) = None"

fun handled ::
  "('x, 'p, 'e, 'a) session_event \<Rightarrow> ('e, 'a) event_loop \<Rightarrow> (string \<times> ('e + 'a)) option" where
  "handled RunMicrotask st =
     (case microtasks st of [] \<Rightarrow> None | job # rest \<Rightarrow> handled_by_job job)"
| "handled (Track n promiseFactory) st = None"
| "handled (Settle n settlement) st = None"



text \<open>
  The names whose settlement is queued and not handled yet, and the invariant of a session:
  the pending set holds the names in flight and these, and no name of the completed
  sequence.
\<close>

fun awaiting :: "('e, 'a) job list \<Rightarrow> string list" where
  "awaiting [] = []"
| "awaiting (ThenJob n settlement # q) = n # awaiting q"
| "awaiting (CatchJob n (Inl e) # q) = n # awaiting q"
| "awaiting (CatchJob n (Inr v) # q) = awaiting q"

definition bookkeeping :: "('e, 'a) event_loop \<Rightarrow> string list \<Rightarrow> string list \<Rightarrow> bool" where
  "bookkeeping st inflight reg \<longleftrightarrow>
     distinct (inflight @ awaiting (microtasks st))
     \<and> pendingOperations (tracker_of st) = set inflight \<union> set (awaiting (microtasks st))
     \<and> pendingOperations (tracker_of st) \<union> completed_names (tracker_of st) = set reg
     \<and> pendingOperations (tracker_of st) \<inter> completed_names (tracker_of st) = {}"

subsection \<open>Sessions driven by timers\<close>











section \<open>Concrete inputs\<close>

text \<open>
  Operations to run the executors on; their world is the number of calls made so far.
  \<open>failing\<close> fails every time with a new \<^verbatim>\<open>Error\<close> whose message tells the calls apart,
  \<open>flaky k\<close> fails so \<open>k\<close> times and succeeds from then on. \<open>rejecting r\<close> fails every time
  with the reason \<open>r\<close>, and \<open>flaky_with r k\<close> does so \<open>k\<close> times before it succeeds.
\<close>

definition failing :: "(nat, unit js_value, string) deferred" where
  "failing n = (Inl (Obj (Some (''failure '' @ decimal (Suc n))) ()), Suc n)"

definition flaky :: "nat \<Rightarrow> (nat, unit js_value, string) deferred" where
  "flaky k n =
     (if n < k then Inl (Obj (Some (''failure '' @ decimal (Suc n))) ()) else Inr ''done'',
      Suc n)"

definition rejecting :: "unit js_value \<Rightarrow> (nat, unit js_value, string) deferred" where
  "rejecting r n = (Inl r, Suc n)"

definition flaky_with :: "unit js_value \<Rightarrow> nat \<Rightarrow> (nat, unit js_value, string) deferred" where
  "flaky_with r k n = (if n < k then Inl r else Inr ''done'', Suc n)"

text \<open>
  A factory that returns a promise (number 5), one that throws, a session in which a
  rejection is followed by a fulfilment before any reaction runs, and operations on timers.
\<close>

definition user_fetch :: "unit \<Rightarrow> string + nat" where
  "user_fetch u = Inr 5"

definition posts_fetch :: "unit \<Rightarrow> string + nat" where
  "posts_fetch u = Inr 6"

definition broken_factory :: "unit \<Rightarrow> string + nat" where
  "broken_factory u = Inl ''factory failed''"

definition example_session :: "(string, nat, unit js_value, string) session_event list" where
  "example_session =
     [Track ''user-fetch'' user_fetch, Track ''posts-fetch'' posts_fetch,
      Settle ''posts-fetch'' (Inl (Obj (Some ''no posts'') ())),
      Settle ''user-fetch'' (Inr ''user 5''),
      RunMicrotask, RunMicrotask, RunMicrotask, RunMicrotask]"



section \<open>Auxiliary facts\<close>

lemma decimal_digit: "n < 10 \<Longrightarrow> decimal n = [digits ! n]"
  by (simp add: decimal.simps)

lemma backoff_from_Suc:
  assumes "0 < n"
  shows "backoff_from a (Suc n) =
     Invoke Operation # SetTimeout (baseDelay * (a + 1)) # backoff_from (a + 1) n"
proof -
  from assms have "[1..<Suc n] = 1 # map Suc [1..<n]"
    by (simp add: map_Suc_upt upt_conv_Cons del: upt_Suc)
  then show ?thesis
    by (simp add: backoff_from_def comp_def algebra_simps del: upt_Suc)
qed

lemma backoff_from_1: "backoff_from a (Suc 0) = [Invoke Operation]"
  by (simp add: backoff_from_def)


lemma invocations_backoff: "0 < n \<Longrightarrow> invocations Operation (backoff_from a n) = n"
proof (induction n arbitrary: a)
  case 0
  then show ?case by simp
next
  case (Suc n)
  show ?case
  proof (cases "n = 0")
    case True
    then show ?thesis by (simp add: backoff_from_1 invocations_def)
  next
    case False
    then have "0 < n" by simp
    with Suc.IH[of "a + 1"] show ?thesis
      by (simp add: backoff_from_Suc invocations_def)
  qed
qed


lemma nth_outcome_0: "nth_outcome operation s 0 = r \<Longrightarrow> \<exists>s'. operation s = (r, s')"
  by (cases "operation s") (simp add: nth_outcome_def)

lemma nth_outcome_Suc:
  "operation s = (r, s') \<Longrightarrow> nth_outcome operation s (Suc i) = nth_outcome operation s' i"
  by (simp add: nth_outcome_def)

lemma read_message_sound: "\<not> nullish v \<Longrightarrow> read_message v = Inr (message_of v)"
  by (simp add: read_message_def)

text \<open>
  The loop when every attempt it can make fails, with a reason whose message can be read:
  \<open>Suc k\<close> attempts are left.
\<close>

lemma retry_loop_exhausted:
  "(\<forall>i<Suc k. nth_outcome operation s i = Inl (reason i) \<and> \<not> nullish (reason i)) \<Longrightarrow>
   maxRetries = attempt + int (Suc k) \<Longrightarrow>
   retry_loop operation maxRetries attempt s =
     (Inl (Error (exhausted_message maxRetries (ToString (message_of (reason k))))),
      nth_state operation s (Suc k), backoff_from attempt (Suc k))"
proof (induction k arbitrary: attempt s reason)
  case 0
  then obtain s' where "operation s = (Inl (reason 0), s')" "\<not> nullish (reason 0)"
    using nth_outcome_0[of operation s "Inl (reason 0)"] by auto
  with 0 show ?case
    by (subst retry_loop.simps) (simp add: read_message_sound backoff_from_1)
next
  case (Suc k)
  from Suc.prems(1) have "nth_outcome operation s 0 = Inl (reason 0)" "\<not> nullish (reason 0)"
    by simp_all
  then obtain s' where os: "operation s = (Inl (reason 0), s')"
    using nth_outcome_0[of operation s "Inl (reason 0)"] by auto
  have fails: "\<forall>i<Suc k. nth_outcome operation s' i = Inl (reason (Suc i))
      \<and> \<not> nullish (reason (Suc i))"
  proof (intro allI impI)
    fix i assume "i < Suc k"
    then have "nth_outcome operation s (Suc i) = Inl (reason (Suc i))
        \<and> \<not> nullish (reason (Suc i))"
      using Suc.prems(1) by simp
    then show "nth_outcome operation s' i = Inl (reason (Suc i)) \<and> \<not> nullish (reason (Suc i))"
      using os by (simp add: nth_outcome_Suc)
  qed
  have "maxRetries = (attempt + 1) + int (Suc k)" using Suc.prems(2) by simp
  from Suc.IH[of s' "\<lambda>i. reason (Suc i)" "attempt + 1", OF fails this] os Suc.prems(2)
    \<open>\<not> nullish (reason 0)\<close>
  show ?case
    by (subst retry_loop.simps) (simp add: read_message_sound backoff_from_Suc)
qed

text \<open>The loop when \<open>k\<close> attempts fail so and the next one succeeds within the bound.\<close>

lemma retry_loop_succeeds:
  "(\<forall>i<k. nth_outcome operation s i = Inl (reason i) \<and> \<not> nullish (reason i)) \<Longrightarrow>
   nth_outcome operation s k = Inr v \<Longrightarrow> attempt + int k < maxRetries \<Longrightarrow>
   retry_loop operation maxRetries attempt s =
     (Inr (Some v), nth_state operation s (Suc k), backoff_from attempt (Suc k))"
proof (induction k arbitrary: attempt s reason)
  case 0
  then obtain s' where "operation s = (Inr v, s')"
    using nth_outcome_0[of operation s "Inr v"] by auto
  with 0 show ?case
    by (subst retry_loop.simps) (simp add: backoff_from_1)
next
  case (Suc k)
  from Suc.prems(1) have "nth_outcome operation s 0 = Inl (reason 0)" "\<not> nullish (reason 0)"
    by simp_all
  then obtain s' where os: "operation s = (Inl (reason 0), s')"
    using nth_outcome_0[of operation s "Inl (reason 0)"] by auto
  have fails: "\<forall>i<k. nth_outcome operation s' i = Inl (reason (Suc i))
      \<and> \<not> nullish (reason (Suc i))"
  proof (intro allI impI)
    fix i assume "i < k"
    then have "nth_outcome operation s (Suc i) = Inl (reason (Suc i))
        \<and> \<not> nullish (reason (Suc i))"
      using Suc.prems(1) by simp
    then show "nth_outcome operation s' i = Inl (reason (Suc i)) \<and> \<not> nullish (reason (Suc i))"
      using os by (simp add: nth_outcome_Suc)
  qed
  have succ: "nth_outcome operation s' k = Inr v"
    using Suc.prems(2) os by (simp add: nth_outcome_Suc)
  have "(attempt + 1) + int k < maxRetries" using Suc.prems(3) by simp
  from Suc.IH[of s' "\<lambda>i. reason (Suc i)" "attempt + 1", OF fails succ this] os Suc.prems(3)
    \<open>\<not> nullish (reason 0)\<close>
  show ?case
    by (subst retry_loop.simps) (simp add: read_message_sound backoff_from_Suc)
qed

lemma retry_loop_not_entered:
  "maxRetries \<le> attempt \<Longrightarrow> retry_loop operation maxRetries attempt s = (Inr None, s, [])"
  by (subst retry_loop.simps) simp

text \<open>Whatever the operation does, the trace of an entered loop is a linear backoff.\<close>

lemma retry_loop_trace:
  "attempt < maxRetries \<Longrightarrow>
   \<exists>n. 0 < n \<and> int n \<le> maxRetries - attempt \<and>
       snd (snd (retry_loop operation maxRetries attempt s)) = backoff_from attempt n"
proof (induction operation maxRetries attempt s rule: retry_loop.induct)
  case (1 operation maxRetries attempt s)
  obtain r s' where os: "operation s = (r, s')" by (cases "operation s")
  have one: "snd (snd (retry_loop operation maxRetries attempt s)) = backoff_from attempt (Suc 0)
      \<Longrightarrow> ?case"
    using "1.prems" by (intro exI[of _ "Suc 0"]) simp
  show ?case
  proof (cases r)
    case (Inr v)
    with os "1.prems" show ?thesis
      by (intro one) (subst retry_loop.simps, simp add: backoff_from_1)
  next
    case (Inl e)
    show ?thesis
    proof (cases "read_message e")
      case exn: (Inl exn)
      with os Inl "1.prems" show ?thesis
        by (intro one) (subst retry_loop.simps, simp add: backoff_from_1)
    next
      case msg: (Inr msg)
      show ?thesis
      proof (cases "maxRetries \<le> attempt + 1")
        case True
        with os Inl msg "1.prems" show ?thesis
          by (intro one) (subst retry_loop.simps, simp add: backoff_from_1)
      next
        case False
        then have lt: "attempt + 1 < maxRetries" by simp
        from "1.IH"[OF "1.prems" os[symmetric] Inl msg False lt]
        obtain n where n: "0 < n" "int n \<le> maxRetries - (attempt + 1)"
          "snd (snd (retry_loop operation maxRetries (attempt + 1) s')) =
             backoff_from (attempt + 1) n"
          by blast
        from os Inl msg False "1.prems" n(1,3) have
          "snd (snd (retry_loop operation maxRetries attempt s)) = backoff_from attempt (Suc n)"
          by (subst retry_loop.simps) (simp add: backoff_from_Suc case_prod_beta)
        with n(2) show ?thesis by (intro exI[of _ "Suc n"]) simp
      qed
    qed
  qed
qed

lemma retryOperation_not_entered:
  "maxRetries \<le> 0 \<Longrightarrow> trace_of (retryOperation operation maxRetries s) = []"
  by (simp add: retryOperation_def retry_loop_not_entered trace_of_def)

lemma nth_state_failing: "nth_state failing s i = s + i"
  by (induction i arbitrary: s) (simp_all add: failing_def)

lemma nth_state_flaky: "nth_state (flaky k) s i = s + i"
  by (induction i arbitrary: s) (simp_all add: flaky_def)

lemma failing_thrice: "invocations Operation (trace_of (retryOperation failing 3 0)) = 3"
  by (simp add: retryOperation_def retry_loop.simps failing_def trace_of_def invocations_def
      read_message_def)

text \<open>The two handlers chained by \<^verbatim>\<open>createTrackedPromise\<close>, taken together.\<close>

lemma tracked_reaction_eq:
  "tracked_reaction n settlement t =
     (settlement,
      t\<lparr>pendingOperations := pendingOperations t - {n},
        completedOperations := completedOperations t @ [record_of n settlement]\<rparr>)"
  by (cases settlement)
     (simp_all add: tracked_reaction_def promise_then_def promise_catch_def on_fulfilled_def
        on_rejected_def record_of_def)

lemma expected_record_eq: "expected_record n settlement = record_of n settlement"
  by (cases settlement)
     (simp_all add: expected_record_def record_of_def fulfilled_record_def rejected_record_def)

lemma rec_name_expected [simp]: "rec_name (expected_record n settlement) = n"
  by (cases settlement) (simp_all add: expected_record_def)

text \<open>What the run of the job at the head of the queue does, by the kind of the job.\<close>

lemma run_microtask_empty: "microtasks st = [] \<Longrightarrow> run_microtask st = st"
  by (simp add: run_microtask_def)

lemma run_microtask_then_fulfilled:
  "microtasks st = ThenJob n (Inr v) # rest \<Longrightarrow>
   run_microtask st =
     \<lparr>tracker_of = (tracker_of st)
        \<lparr>pendingOperations := pendingOperations (tracker_of st) - {n},
         completedOperations := completedOperations (tracker_of st) @ [expected_record n (Inr v)]\<rparr>,
      microtasks = rest @ [CatchJob n (Inr v)]\<rparr>"
  by (simp add: run_microtask_def promise_then_def on_fulfilled_def expected_record_def
      fulfilled_record_def)

lemma run_microtask_then_rejected:
  "microtasks st = ThenJob n (Inl e) # rest \<Longrightarrow>
   run_microtask st = \<lparr>tracker_of = tracker_of st, microtasks = rest @ [CatchJob n (Inl e)]\<rparr>"
  by (simp add: run_microtask_def promise_then_def)

lemma run_microtask_catch_rejected:
  "microtasks st = CatchJob n (Inl e) # rest \<Longrightarrow>
   run_microtask st =
     \<lparr>tracker_of = (tracker_of st)
        \<lparr>pendingOperations := pendingOperations (tracker_of st) - {n},
         completedOperations := completedOperations (tracker_of st) @ [expected_record n (Inl e)]\<rparr>,
      microtasks = rest\<rparr>"
  by (simp add: run_microtask_def promise_catch_def on_rejected_def expected_record_def
      rejected_record_def)

lemma run_microtask_catch_fulfilled:
  "microtasks st = CatchJob n (Inr v) # rest \<Longrightarrow>
   run_microtask st = \<lparr>tracker_of = tracker_of st, microtasks = rest\<rparr>"
  by (simp add: run_microtask_def promise_catch_def)

lemmas run_microtask_cases =
  run_microtask_empty run_microtask_then_fulfilled run_microtask_then_rejected
  run_microtask_catch_rejected run_microtask_catch_fulfilled

lemma job_cases:
  obtains n v where "job = ThenJob n (Inr v)"
  | n e where "job = ThenJob n (Inl e)"
  | n e where "job = CatchJob n (Inl e)"
  | n v where "job = CatchJob n (Inr v)"
proof (cases job)
  case (ThenJob n settlement)
  then show ?thesis using that(1,2) by (cases settlement) auto
next
  case (CatchJob n settlement)
  then show ?thesis using that(3,4) by (cases settlement) auto
qed

lemma awaiting_append: "awaiting (q @ q') = awaiting q @ awaiting q'"
  by (induction q rule: awaiting.induct) simp_all

text \<open>One step appends the record of the settlement it handles, and nothing else.\<close>

lemma completed_step:
  "completedOperations (tracker_of (session_step ev st)) =
     completedOperations (tracker_of st)
       @ (case handled ev st of None \<Rightarrow> [] | Some (n, settlement) \<Rightarrow> [expected_record n settlement])"
proof (cases ev)
  case (Track n promiseFactory)
  then show ?thesis
    by (simp add: track_def createTrackedPromise_def split: sum.splits)
next
  case (Settle n settlement)
  then show ?thesis by (simp add: settle_def)
next
  case RunMicrotask
  show ?thesis
  proof (cases "microtasks st")
    case Nil
    with RunMicrotask show ?thesis by (simp add: run_microtask_empty)
  next
    case (Cons job rest)
    with RunMicrotask show ?thesis
      by (cases job rule: job_cases) (simp_all add: run_microtask_cases)
  qed
qed


lemma run_session_append: "run_session (xs @ ys) st = run_session ys (run_session xs st)"
  by (induction xs arbitrary: st) simp_all

lemma run_session_take_Suc:
  "k < length evs \<Longrightarrow>
   run_session (take (Suc k) evs) st = session_step (evs ! k) (run_session (take k evs) st)"
  by (simp add: take_Suc_conv_app_nth run_session_append)

text \<open>The invariant of a session is kept by every step.\<close>

lemma bookkeeping_track:
  assumes "bookkeeping st inflight reg" and "promiseFactory () = Inr promise" and "n \<notin> set reg"
  shows "bookkeeping (track n promiseFactory st) (n # inflight) (reg @ [n])"
  using assms
  by (auto simp: bookkeeping_def track_def createTrackedPromise_def completed_names_def)

lemma track_throws: "promiseFactory () = Inl exn \<Longrightarrow> track n promiseFactory st = st"
  by (simp add: track_def createTrackedPromise_def)

lemma bookkeeping_settle:
  assumes "bookkeeping st inflight reg" and "n \<in> set inflight"
  shows "bookkeeping (settle n settlement st) (remove1 n inflight) reg"
  using assms
  by (auto simp: bookkeeping_def settle_def awaiting_append dest: notin_set_remove1)

lemma bookkeeping_run_microtask:
  assumes "bookkeeping st inflight reg"
  shows "bookkeeping (run_microtask st) inflight reg"
proof (cases "microtasks st")
  case Nil
  with assms show ?thesis by (simp add: run_microtask_empty)
next
  case (Cons job rest)
  with assms show ?thesis
    by (cases job rule: job_cases)
       (auto simp: run_microtask_cases bookkeeping_def awaiting_append completed_names_def)
qed

lemma bookkeeping_run:
  "bookkeeping st inflight reg \<Longrightarrow> well_formed inflight evs \<Longrightarrow> distinct (reg @ registered evs) \<Longrightarrow>
   bookkeeping (run_session evs st) (inflight_after inflight evs) (reg @ registered evs)"
proof (induction evs arbitrary: st inflight reg)
  case Nil
  then show ?case by simp
next
  case (Cons ev evs)
  show ?case
  proof (cases ev)
    case (Track n promiseFactory)
    show ?thesis
    proof (cases "promiseFactory ()")
      case (Inl exn)
      with Cons.prems Track have "bookkeeping (session_step ev st) inflight reg"
        "well_formed inflight evs" "distinct (reg @ registered evs)"
        by (simp_all add: track_throws)
      from Cons.IH[OF this] Track Inl show ?thesis by simp
    next
      case (Inr promise)
      with Cons.prems Track have d: "distinct ((reg @ [n]) @ registered evs)"
        and w: "well_formed (n # inflight) evs" and fresh: "n \<notin> set reg"
        by simp_all
      from Cons.prems(1) Inr fresh Track
      have "bookkeeping (session_step ev st) (n # inflight) (reg @ [n])"
        by (simp add: bookkeeping_track[of st inflight reg promiseFactory promise n])
      from Cons.IH[OF this w d] Track Inr show ?thesis by simp
    qed
  next
    case (Settle n settlement)
    with Cons.prems have inn: "n \<in> set inflight" and w: "well_formed (remove1 n inflight) evs"
      and d: "distinct (reg @ registered evs)"
      by simp_all
    from Cons.prems(1) inn Settle
    have "bookkeeping (session_step ev st) (remove1 n inflight) reg"
      by (simp add: bookkeeping_settle)
    from Cons.IH[OF this w d] Settle show ?thesis by simp
  next
    case RunMicrotask
    with Cons.prems have w: "well_formed inflight evs" and d: "distinct (reg @ registered evs)"
      by simp_all
    from bookkeeping_run_microtask[OF Cons.prems(1)] RunMicrotask
    have "bookkeeping (session_step ev st) inflight reg" by simp
    from Cons.IH[OF this w d] RunMicrotask show ?thesis by simp
  qed
qed

lemma well_formed_take: "well_formed inflight evs \<Longrightarrow> well_formed inflight (take k evs)"
proof (induction evs arbitrary: inflight k)
  case Nil
  then show ?case by simp
next
  case (Cons ev evs)
  then show ?case
    by (cases k; cases ev) (auto split: sum.splits)
qed

lemma registered_append: "registered (xs @ ys) = registered xs @ registered ys"
  by (induction xs rule: registered.induct) (auto split: sum.splits)

lemma distinct_registered_take:
  assumes "distinct (registered evs)"
  shows "distinct (registered (take k evs))"
proof -
  from assms have "distinct (registered (take k evs @ drop k evs))" by simp
  then show ?thesis unfolding registered_append by simp
qed

lemma bookkeeping_prefix:
  assumes "well_formed [] evs" and "distinct (registered evs)"
  shows "bookkeeping (run_session (take k evs) new_session)
           (inflight_after [] (take k evs)) (registered (take k evs))"
proof -
  have "bookkeeping (run_session (take k evs) new_session)
          (inflight_after [] (take k evs)) ([] @ registered (take k evs))"
  proof (rule bookkeeping_run)
    show "bookkeeping new_session [] []"
      by (simp add: bookkeeping_def new_session_def new_tracker_def completed_names_def)
    show "well_formed [] (take k evs)"
      using assms(1) by (rule well_formed_take)
    show "distinct ([] @ registered (take k evs))"
      using distinct_registered_take[OF assms(2)] by simp
  qed
  then show ?thesis by simp
qed

text \<open>The step that handles a settlement moves the name from the pending set to a record.\<close>

lemma handled_moves:
  assumes "bookkeeping st inflight reg" and "handled ev st = Some (n, settlement)"
  shows "n \<in> pendingOperations (tracker_of st)
       \<and> n \<notin> completed_names (tracker_of st)
       \<and> n \<notin> pendingOperations (tracker_of (session_step ev st))
       \<and> completedOperations (tracker_of (session_step ev st)) =
           completedOperations (tracker_of st) @ [expected_record n settlement]"
proof -
  from assms(2) obtain job rest where ev: "ev = RunMicrotask" and q: "microtasks st = job # rest"
    and h: "handled_by_job job = Some (n, settlement)"
    by (cases ev; cases "microtasks st") auto
  from assms(1) q h have "n \<in> pendingOperations (tracker_of st)"
    by (cases job rule: job_cases) (auto simp: bookkeeping_def)
  moreover from this assms(1) have "n \<notin> completed_names (tracker_of st)"
    by (auto simp: bookkeeping_def)
  moreover from q h ev have "n \<notin> pendingOperations (tracker_of (session_step ev st))"
    by (cases job rule: job_cases) (auto simp: run_microtask_cases)
  moreover from assms(2) have "completedOperations (tracker_of (session_step ev st)) =
      completedOperations (tracker_of st) @ [expected_record n settlement]"
    by (simp add: completed_step)
  ultimately show ?thesis by simp
qed

text \<open>A settlement in a session with no job queued: its two reactions run, and no more.\<close>

lemma settle_and_drain_idle:
  assumes "microtasks st = []"
  shows "settle_and_drain n settlement st =
     \<lparr>tracker_of = snd (tracked_reaction n settlement (tracker_of st)), microtasks = []\<rparr>"
proof (cases settlement)
  case (Inl e)
  have 1: "microtasks (settle n (Inl e) st) = ThenJob n (Inl e) # []"
    using assms by (simp add: settle_def)
  show ?thesis
    unfolding settle_and_drain_def Inl
    apply (subst drain.simps, simp add: 1 run_microtask_then_rejected[OF 1])
    apply (subst drain.simps, simp add: run_microtask_catch_rejected[where rest="[]"])
    apply (subst drain.simps, simp add: settle_def tracked_reaction_eq expected_record_eq)
    done
next
  case (Inr v)
  have 1: "microtasks (settle n (Inr v) st) = ThenJob n (Inr v) # []"
    using assms by (simp add: settle_def)
  show ?thesis
    unfolding settle_and_drain_def Inr
    apply (subst drain.simps, simp add: 1 run_microtask_then_fulfilled[OF 1])
    apply (subst drain.simps, simp add: run_microtask_catch_fulfilled[where rest="[]"])
    apply (subst drain.simps, simp add: settle_def tracked_reaction_eq expected_record_eq)
    done
qed

text \<open>
  These two reactions are the chain that \<^verbatim>\<open>createTrackedPromise\<close> returned for the name.
\<close>

lemma settle_and_drain_chain:
  assumes "createTrackedPromise n promiseFactory t0 = (Inr (promise, reaction), t1)"
    and "microtasks st = []"
  shows "settle_and_drain n settlement st =
     \<lparr>tracker_of = snd (reaction settlement (tracker_of st)), microtasks = []\<rparr>"
proof -
  from assms(1) have "reaction = tracked_reaction n"
    by (auto simp: createTrackedPromise_def split: sum.splits)
  with assms(2) show ?thesis by (simp add: settle_and_drain_idle)
qed









section \<open>The claims about retryOperation\<close>

text \<open>
  C1, as stated: for every \<open>maxRetries \<ge> 1\<close> and every operation that fails on every
  invocation, \<open>retryOperation\<close> invokes the operation exactly \<open>maxRetries\<close> times and then
  fails with an error that wraps the most recent reason and the count of attempts. It
  fails for the operation that rejects with \<^verbatim>\<open>null\<close>: with \<open>maxRetries = 3\<close> the handler
  raises a \<^verbatim>\<open>TypeError\<close> when it reads \<^verbatim>\<open>error.message\<close> after the first invocation, the call
  fails with that, and there is no second invocation.
\<close>

theorem retryOperation_exhausted_counterexample:
  "settlement_of (retryOperation (rejecting Null) 3 0) = Inl TypeError
   \<and> invocations Operation (trace_of (retryOperation (rejecting Null) 3 0)) = 1
   \<and> int (invocations Operation (trace_of (retryOperation (rejecting Null) 3 0))) \<noteq> 3"
  by (simp add: retryOperation_def retry_loop.simps rejecting_def read_message_def
      settlement_of_def trace_of_def invocations_def)

text \<open>
  C1, amended: for every \<open>maxRetries \<ge> 1\<close> and every operation that fails on every
  invocation with a reason that is neither \<^verbatim>\<open>null\<close> nor \<^verbatim>\<open>undefined\<close>, \<open>retryOperation\<close>
  invokes the operation exactly \<open>maxRetries\<close> times and then fails with a new \<^verbatim>\<open>Error\<close> whose
  message is \<^verbatim>\<open>Operation failed after <maxRetries> attempts: <text>\<close>, the text being the
  message of the most recent reason, that of invocation number \<open>maxRetries\<close>, when this reason
  is an object with a message, and \<^verbatim>\<open>undefined\<close> otherwise. With \<open>maxRetries = 1\<close> this is
  one attempt, no retry, and the count 1.
\<close>

theorem retryOperation_exhausted:
  assumes "1 \<le> maxRetries"
    and "\<forall>i. nth_outcome operation s i = Inl (reason i)"
    and "\<forall>i. \<not> nullish (reason i)"
  shows "settlement_of (retryOperation operation maxRetries s) =
           Inl (Error (''Operation failed after '' @ Number_toString maxRetries @ '' attempts: ''
                        @ ToString (message_of (reason (nat maxRetries - 1)))))
       \<and> int (invocations Operation (trace_of (retryOperation operation maxRetries s))) = maxRetries
       \<and> world_of (retryOperation operation maxRetries s) = nth_state operation s (nat maxRetries)"
proof -
  from assms(1) obtain k where k: "nat maxRetries = Suc k"
    by (cases "nat maxRetries") simp_all
  with assms(1) have m: "maxRetries = 0 + int (Suc k)" by linarith
  have fails: "\<forall>i<Suc k. nth_outcome operation s i = Inl (reason i) \<and> \<not> nullish (reason i)"
    using assms(2,3) by simp
  from retry_loop_exhausted[OF fails m] k show ?thesis
    by (simp add: retryOperation_def settlement_of_def trace_of_def world_of_def
        exhausted_message_def invocations_backoff)
qed

theorem retryOperation_exhausted_witness:
  "settlement_of (retryOperation failing 3 0) =
        Inl (Error ''Operation failed after 3 attempts: failure 3'')
   \<and> invocations Operation (trace_of (retryOperation failing 3 0)) = 3
   \<and> settlement_of (retryOperation failing 1 0) =
        Inl (Error ''Operation failed after 1 attempts: failure 1'')
   \<and> invocations Operation (trace_of (retryOperation failing 1 0)) = 1
   \<and> settlement_of (retryOperation (rejecting (Str ''A'')) 2 0) =
        Inl (Error ''Operation failed after 2 attempts: undefined'')"
proof -
  have h: "\<forall>i. nth_outcome failing 0 i = Inl (Obj (Some (''failure '' @ decimal (Suc i))) ())"
    by (simp add: nth_outcome_def nth_state_failing failing_def)
  have n: "\<forall>i. \<not> nullish (Obj (Some (''failure '' @ decimal (Suc i))) ())"
    by simp
  have a: "\<forall>i. nth_outcome (rejecting (Str ''A'')) 0 i = Inl (Str ''A'')"
    by (simp add: nth_outcome_def rejecting_def)
  have b: "\<forall>i::nat. \<not> nullish (Str ''A'' :: unit js_value)"
    by simp
  have h3: "(1::int) \<le> 3" and h1: "(1::int) \<le> 1" and h2: "(1::int) \<le> 2" by simp_all
  show ?thesis
    using retryOperation_exhausted[OF h3 h n] retryOperation_exhausted[OF h1 h n]
      retryOperation_exhausted[OF h2 a b]
    by (simp add: Number_toString_def decimal_digit digits_def)
qed

text \<open>
  C2, as stated: for every \<open>maxRetries \<ge> 1\<close> and every operation that fails on its first
  \<open>k\<close> invocations, \<open>k < maxRetries\<close>, and succeeds on invocation \<open>k + 1\<close>, \<open>retryOperation\<close>
  returns that value after exactly \<open>k + 1\<close> invocations. It fails for the operation that
  rejects with \<^verbatim>\<open>null\<close> once and then succeeds: with \<open>maxRetries = 3\<close> the call fails with the
  \<^verbatim>\<open>TypeError\<close> of reading \<^verbatim>\<open>error.message\<close> after one invocation, and the success is never
  reached.
\<close>

theorem retryOperation_succeeds_counterexample:
  "nth_outcome (flaky_with Null 1) 0 0 = Inl Null
   \<and> nth_outcome (flaky_with Null 1) 0 1 = Inr ''done''
   \<and> settlement_of (retryOperation (flaky_with Null 1) 3 0) = Inl TypeError
   \<and> settlement_of (retryOperation (flaky_with Null 1) 3 0) \<noteq> Inr (Some ''done'')
   \<and> invocations Operation (trace_of (retryOperation (flaky_with Null 1) 3 0)) = 1"
  by (simp add: retryOperation_def retry_loop.simps flaky_with_def read_message_def
      settlement_of_def trace_of_def invocations_def nth_outcome_def)

text \<open>
  C2, amended: for every \<open>maxRetries \<ge> 1\<close> and every operation that fails on its first
  \<open>k\<close> invocations, \<open>k < maxRetries\<close>, each time with a reason that is neither \<^verbatim>\<open>null\<close> nor
  \<^verbatim>\<open>undefined\<close>, and succeeds on invocation \<open>k + 1\<close>, \<open>retryOperation\<close> returns that value and
  invokes the operation exactly \<open>k + 1\<close> times: it leaves the world as \<open>k + 1\<close> invocations
  leave it. With \<open>k = 0\<close>: an operation that succeeds is invoked once.
\<close>

theorem retryOperation_succeeds:
  assumes "1 \<le> maxRetries" and "int k < maxRetries"
    and "\<forall>i. i < k \<longrightarrow> nth_outcome operation s i = Inl (reason i) \<and> \<not> nullish (reason i)"
    and "nth_outcome operation s k = Inr v"
  shows "settlement_of (retryOperation operation maxRetries s) = Inr (Some v)
       \<and> invocations Operation (trace_of (retryOperation operation maxRetries s)) = k + 1
       \<and> world_of (retryOperation operation maxRetries s) = nth_state operation s (k + 1)"
proof -
  have f: "\<forall>i<k. nth_outcome operation s i = Inl (reason i) \<and> \<not> nullish (reason i)"
    using assms(3) by simp
  have "0 + int k < maxRetries" using assms(2) by simp
  from retry_loop_succeeds[OF f assms(4) this] show ?thesis
    by (simp add: retryOperation_def settlement_of_def trace_of_def world_of_def
        invocations_backoff)
qed

theorem retryOperation_succeeds_witness:
  "settlement_of (retryOperation (flaky 2) 3 0) = Inr (Some ''done'')
   \<and> invocations Operation (trace_of (retryOperation (flaky 2) 3 0)) = 3
   \<and> world_of (retryOperation (flaky 2) 3 0) = 3
   \<and> settlement_of (retryOperation (flaky 0) 5 0) = Inr (Some ''done'')
   \<and> invocations Operation (trace_of (retryOperation (flaky 0) 5 0)) = 1"
proof -
  have a: "(1::int) \<le> 3" "int 2 < 3" "(1::int) \<le> 5" "int 0 < 5" by simp_all
  have f2: "\<forall>i. i < 2 \<longrightarrow>
      nth_outcome (flaky 2) 0 i = Inl (Obj (Some (''failure '' @ decimal (Suc i))) ())
      \<and> \<not> nullish (Obj (Some (''failure '' @ decimal (Suc i))) ())"
    by (simp add: nth_outcome_def nth_state_flaky flaky_def)
  have s2: "nth_outcome (flaky 2) 0 2 = Inr ''done''"
    by (simp add: nth_outcome_def nth_state_flaky flaky_def)
  have f0: "\<forall>i. i < 0 \<longrightarrow>
      nth_outcome (flaky 0) 0 i = Inl (Undefined :: unit js_value) \<and> \<not> nullish (Undefined :: unit js_value)"
    by simp
  have s0: "nth_outcome (flaky 0) 0 0 = Inr ''done''"
    by (simp add: nth_outcome_def flaky_def)
  show ?thesis
    using retryOperation_succeeds[OF a(1) a(2) f2 s2]
      retryOperation_succeeds[OF a(3) a(4) f0 s0]
    by (simp add: nth_state_flaky)
qed



section \<open>The claims about withFallback\<close>

text \<open>
  C3, as stated: when the primary operation fails and the fallback fails too,
  \<open>withFallback\<close> fails with a composite failure that carries both reasons, the primary's
  first. It fails for reasons that are no objects: with the strings \<^verbatim>\<open>"A"\<close> and \<^verbatim>\<open>"B"\<close> the
  message of the error names neither, and with \<^verbatim>\<open>null\<close> the call fails with the \<^verbatim>\<open>TypeError\<close>
  of reading \<^verbatim>\<open>primaryError.message\<close>.
\<close>

theorem withFallback_primary_fails_counterexample:
  "settlement_of (withFallback (rejecting (Str ''A'')) (rejecting (Str ''B'')) 0) =
     Inl (Error ''Both operations failed. Primary: undefined, Fallback: undefined'')
   \<and> settlement_of (withFallback (rejecting Null) (rejecting (Str ''B'')) 0) = Inl TypeError"
  by (simp add: withFallback_def rejecting_def read_message_def both_failed_message_def
      settlement_of_def)

text \<open>
  C3, amended: when the primary operation fails, \<open>withFallback\<close> invokes the fallback exactly
  once, after the primary and on the world the primary left. If the fallback succeeds, its
  value is returned, and the reason of the primary is no part of it. If the fallback fails
  too and neither reason is \<^verbatim>\<open>null\<close> or \<^verbatim>\<open>undefined\<close>, \<open>withFallback\<close> fails with a new
  \<^verbatim>\<open>Error\<close> whose message is \<^verbatim>\<open>Both operations failed. Primary: <p>, Fallback: <f>\<close>, where
  \<open>p\<close> and \<open>f\<close> are the messages of the primary's and of the fallback's reason when these
  are objects with a message, and \<^verbatim>\<open>undefined\<close> otherwise.
\<close>

theorem withFallback_primary_fails:
  assumes "primaryOperation s = (Inl primaryError, s1)"
  shows "trace_of (withFallback primaryOperation fallbackOperation s) =
           [Invoke PrimaryOperation, Invoke FallbackOperation]
       \<and> world_of (withFallback primaryOperation fallbackOperation s) = snd (fallbackOperation s1)
       \<and> (\<forall>v. fst (fallbackOperation s1) = Inr v \<longrightarrow>
            settlement_of (withFallback primaryOperation fallbackOperation s) = Inr v)
       \<and> (\<forall>fallbackError.
            fst (fallbackOperation s1) = Inl fallbackError
              \<and> \<not> nullish primaryError \<and> \<not> nullish fallbackError \<longrightarrow>
            settlement_of (withFallback primaryOperation fallbackOperation s) =
              Inl (Error (''Both operations failed. Primary: '' @ ToString (message_of primaryError)
                           @ '', Fallback: '' @ ToString (message_of fallbackError))))"
  using assms
  by (auto simp: withFallback_def trace_of_def world_of_def settlement_of_def
      both_failed_message_def read_message_def split: prod.splits sum.splits)

theorem withFallback_primary_fails_witness:
  "trace_of (withFallback failing (flaky 0) 0) = [Invoke PrimaryOperation, Invoke FallbackOperation]
   \<and> settlement_of (withFallback failing (flaky 0) 0) = Inr ''done''
   \<and> settlement_of (withFallback failing failing 0) =
       Inl (Error ''Both operations failed. Primary: failure 1, Fallback: failure 2'')"
proof -
  have h: "failing 0 = (Inl (Obj (Some ''failure 1'') ()), 1)"
    by (simp add: failing_def decimal_digit digits_def)
  have f: "fst (flaky 0 1) = Inr ''done''"
    by (simp add: flaky_def)
  have g: "fst (failing 1) = Inl (Obj (Some ''failure 2'') ())
      \<and> \<not> nullish (Obj (Some ''failure 1'') ()) \<and> \<not> nullish (Obj (Some ''failure 2'') ())"
    by (simp add: failing_def decimal_digit digits_def)
  from h withFallback_primary_fails[of failing 0 "Obj (Some ''failure 1'') ()" 1 "flaky 0"] f
  have 1: "trace_of (withFallback failing (flaky 0) 0) =
        [Invoke PrimaryOperation, Invoke FallbackOperation]"
    and 2: "settlement_of (withFallback failing (flaky 0) 0) = Inr ''done''"
    by blast+
  from h withFallback_primary_fails[of failing 0 "Obj (Some ''failure 1'') ()" 1 failing] g
  have 3: "settlement_of (withFallback failing failing 0) =
      Inl (Error (''Both operations failed. Primary: '' @ ToString (message_of (Obj (Some ''failure 1'') ()))
                           @ '', Fallback: '' @ ToString (message_of (Obj (Some ''failure 2'') ()))))"
    by blast
  show ?thesis
    using 1 2 3 by simp
qed

text \<open>
  C4. When the primary operation succeeds, \<open>withFallback\<close> returns the primary's value, and
  the fallback is never invoked: the only effect is the invocation of the primary, and the
  world is as the primary left it.
\<close>

theorem withFallback_primary_succeeds:
  assumes "primaryOperation s = (Inr v, s1)"
  shows "withFallback primaryOperation fallbackOperation s = (Inr v, s1, [Invoke PrimaryOperation])
       \<and> invocations FallbackOperation
           (trace_of (withFallback primaryOperation fallbackOperation s)) = 0"
  using assms by (simp add: withFallback_def trace_of_def invocations_def)

theorem withFallback_primary_succeeds_witness:
  "withFallback (flaky 0) failing 0 = (Inr ''done'', 1, [Invoke PrimaryOperation])
   \<and> invocations FallbackOperation (trace_of (withFallback (flaky 0) failing 0)) = 0"
proof -
  have h: "flaky 0 0 = (Inr ''done'', 1)"
    by (simp add: flaky_def)
  show ?thesis
    using h withFallback_primary_succeeds[of "flaky 0" 0 "''done''" 1 failing]
    by (simp add: trace_of_def invocations_def)
qed

section \<open>How often an executor invokes an operation\<close>

text \<open>
  C8, as stated: every operation given to an executor is invoked at most once per call, by
  \<open>retryOperation\<close> as well as by \<open>withFallback\<close>. It fails for \<open>retryOperation\<close>: the operation
  that always fails is invoked three times by a call with \<open>maxRetries = 3\<close>.
\<close>

theorem invoked_at_most_once_counterexample:
  "\<not> invocations Operation (trace_of (retryOperation failing 3 0)) \<le> 1"
  by (simp add: failing_thrice)

text \<open>
  C8, amended: per call, \<open>withFallback\<close> invokes each of its two operations at most once
  (the primary exactly once), and \<open>retryOperation\<close> invokes its operation at most
  \<open>maxRetries\<close> times (not at all when \<open>maxRetries \<le> 0\<close>).
\<close>

theorem invocation_bounds:
  "invocations PrimaryOperation (trace_of (withFallback primaryOperation fallbackOperation s)) = 1
   \<and> invocations FallbackOperation (trace_of (withFallback primaryOperation fallbackOperation s)) \<le> 1
   \<and> int (invocations Operation (trace_of (retryOperation operation maxRetries w)))
       \<le> max 0 maxRetries"
proof -
  have fb: "invocations PrimaryOperation
              (trace_of (withFallback primaryOperation fallbackOperation s)) = 1
   \<and> invocations FallbackOperation
       (trace_of (withFallback primaryOperation fallbackOperation s)) \<le> 1"
    by (simp add: withFallback_def trace_of_def invocations_def split: prod.splits sum.splits)
  have "int (invocations Operation (trace_of (retryOperation operation maxRetries w)))
          \<le> max 0 maxRetries"
  proof (cases "0 < maxRetries")
    case True
    from retry_loop_trace[OF this, of operation w]
    obtain n where "0 < n" "int n \<le> maxRetries"
      "trace_of (retryOperation operation maxRetries w) = backoff_from 0 n"
      by (auto simp: retryOperation_def trace_of_def)
    then show ?thesis by (simp add: invocations_backoff)
  next
    case False
    then show ?thesis by (simp add: retryOperation_not_entered invocations_def)
  qed
  with fb show ?thesis by simp
qed

theorem invocation_bounds_witness:
  "invocations PrimaryOperation (trace_of (withFallback failing (flaky 0) 0)) = 1
   \<and> invocations FallbackOperation (trace_of (withFallback failing (flaky 0) 0)) \<le> 1
   \<and> int (invocations Operation (trace_of (retryOperation failing 3 0))) \<le> 3"
  using invocation_bounds[of failing "flaky 0" 0 failing 3 0] by simp

section \<open>The claims about the tracker\<close>

text \<open>
  C5. In a session in which no name is registered twice, at every instant (after every
  prefix \<open>take k evs\<close> of the session) every name registered so far is in exactly one of the
  pending set and the completed sequence, never in both and never in neither. It is there
  from the moment of registration: the step that is a call of \<^verbatim>\<open>createTrackedPromise\<close>
  whose factory returns puts the name into the pending set. And every settlement keeps the
  invariant by moving the name: the step that handles the settlement of a name finds the
  name in the pending set, takes it out and appends its record, all in that one step, so
  that whenever no reaction is queued the pending set holds exactly the names in flight.
\<close>

theorem pending_xor_completed:
  assumes "well_formed [] evs" and "distinct (registered evs)"
  shows "(n \<in> set (registered (take k evs)) \<longrightarrow>
            (n \<in> pendingOperations (tracker_of (run_session (take k evs) new_session)))
              \<noteq> (n \<in> completed_names (tracker_of (run_session (take k evs) new_session))))
       \<and> (k < length evs \<and> evs ! k = Track n promiseFactory \<and> promiseFactory () = Inr promise \<longrightarrow>
            n \<in> pendingOperations (tracker_of (run_session (take (Suc k) evs) new_session)))
       \<and> (k < length evs
            \<and> handled (evs ! k) (run_session (take k evs) new_session) = Some (n, settlement) \<longrightarrow>
            n \<in> pendingOperations (tracker_of (run_session (take k evs) new_session))
          \<and> n \<notin> pendingOperations (tracker_of (run_session (take (Suc k) evs) new_session))
          \<and> completedOperations (tracker_of (run_session (take (Suc k) evs) new_session)) =
              completedOperations (tracker_of (run_session (take k evs) new_session))
                @ [expected_record n settlement])
       \<and> (microtasks (run_session (take k evs) new_session) = [] \<longrightarrow>
            pendingOperations (tracker_of (run_session (take k evs) new_session)) =
              set (inflight_after [] (take k evs)))"
proof (intro conjI impI)
  note inv = bookkeeping_prefix[OF assms, of k]
  {
    assume "n \<in> set (registered (take k evs))"
    with inv show "(n \<in> pendingOperations (tracker_of (run_session (take k evs) new_session)))
              \<noteq> (n \<in> completed_names (tracker_of (run_session (take k evs) new_session)))"
      by (auto simp: bookkeeping_def)
  }
  {
    assume "k < length evs \<and> evs ! k = Track n promiseFactory \<and> promiseFactory () = Inr promise"
    then show "n \<in> pendingOperations (tracker_of (run_session (take (Suc k) evs) new_session))"
      by (simp add: run_session_take_Suc track_def createTrackedPromise_def)
  }
  {
    assume h: "k < length evs
        \<and> handled (evs ! k) (run_session (take k evs) new_session) = Some (n, settlement)"
    from handled_moves[OF inv conjunct2[OF h]] h
    show "n \<in> pendingOperations (tracker_of (run_session (take k evs) new_session))"
      and "n \<notin> pendingOperations (tracker_of (run_session (take (Suc k) evs) new_session))"
      and "completedOperations (tracker_of (run_session (take (Suc k) evs) new_session)) =
              completedOperations (tracker_of (run_session (take k evs) new_session))
                @ [expected_record n settlement]"
      by (simp_all add: run_session_take_Suc)
  }
  {
    assume "microtasks (run_session (take k evs) new_session) = []"
    with inv show "pendingOperations (tracker_of (run_session (take k evs) new_session)) =
              set (inflight_after [] (take k evs))"
      by (simp add: bookkeeping_def)
  }
qed

theorem pending_xor_completed_witness:
  "''user-fetch'' \<in> pendingOperations (tracker_of (run_session (take 5 example_session) new_session))
   \<and> ''user-fetch'' \<notin> pendingOperations (tracker_of (run_session (take 6 example_session) new_session))
   \<and> completedOperations (tracker_of (run_session (take 6 example_session) new_session)) =
       [\<lparr>rec_name = ''user-fetch'', rec_status = ''fulfilled'', rec_result = Some ''user 5'',
         rec_error = None\<rparr>]
   \<and> ''posts-fetch'' \<in> pendingOperations (tracker_of (run_session (take 6 example_session) new_session))
   \<and> ''posts-fetch'' \<notin> completed_names (tracker_of (run_session (take 6 example_session) new_session))
   \<and> ''posts-fetch'' \<notin> pendingOperations (tracker_of (run_session (take 7 example_session) new_session))
   \<and> completedOperations (tracker_of (run_session (take 7 example_session) new_session)) =
       [\<lparr>rec_name = ''user-fetch'', rec_status = ''fulfilled'', rec_result = Some ''user 5'',
         rec_error = None\<rparr>,
        \<lparr>rec_name = ''posts-fetch'', rec_status = ''rejected'', rec_result = None,
         rec_error = Some (Obj (Some ''no posts'') ())\<rparr>]
   \<and> pendingOperations (tracker_of (run_session (take 8 example_session) new_session)) = {}"
proof -
  note defs = example_session_def user_fetch_def posts_fetch_def new_session_def new_tracker_def
    track_def settle_def createTrackedPromise_def run_microtask_def promise_then_def
    promise_catch_def on_fulfilled_def on_rejected_def fulfilled_record_def rejected_record_def
  have w: "well_formed [] example_session"
    by (simp add: example_session_def user_fetch_def posts_fetch_def)
  have d: "distinct (registered example_session)"
    by (simp add: example_session_def user_fetch_def posts_fetch_def)
  have r: "''posts-fetch'' \<in> set (registered (take 6 example_session))"
    by (simp add: example_session_def user_fetch_def posts_fetch_def)
  have h5: "5 < length example_session
      \<and> handled (example_session ! 5) (run_session (take 5 example_session) new_session) =
          Some (''user-fetch'', Inr ''user 5'')"
    by (simp add: defs)
  have h6: "6 < length example_session
      \<and> handled (example_session ! 6) (run_session (take 6 example_session) new_session) =
          Some (''posts-fetch'', Inl (Obj (Some ''no posts'') ()))"
    by (simp add: defs)
  have c5: "completedOperations (tracker_of (run_session (take 5 example_session) new_session)) = []"
    by (simp add: defs)
  have q8: "microtasks (run_session (take 8 example_session) new_session) = []"
    by (simp add: defs)
  have i8: "inflight_after [] (take 8 example_session) = []"
    by (simp add: example_session_def user_fetch_def posts_fetch_def)
  have s6: "Suc 5 = 6" and s7: "Suc 6 = 7" by simp_all
  from pending_xor_completed[OF w d, of "''user-fetch''" 5 user_fetch 5 "Inr ''user 5''"] h5
  have a: "''user-fetch'' \<in> pendingOperations (tracker_of (run_session (take 5 example_session) new_session))"
    and b: "''user-fetch'' \<notin> pendingOperations (tracker_of (run_session (take 6 example_session) new_session))"
    and c: "completedOperations (tracker_of (run_session (take 6 example_session) new_session)) =
        completedOperations (tracker_of (run_session (take 5 example_session) new_session))
          @ [expected_record ''user-fetch'' (Inr ''user 5'')]"
    unfolding s6 by blast+
  from pending_xor_completed[OF w d, of "''posts-fetch''" 6 posts_fetch 6
      "Inl (Obj (Some ''no posts'') ())"] h6 r
  have e: "''posts-fetch'' \<in> pendingOperations (tracker_of (run_session (take 6 example_session) new_session))"
    and f: "''posts-fetch'' \<notin> completed_names (tracker_of (run_session (take 6 example_session) new_session))"
    and g: "''posts-fetch'' \<notin> pendingOperations (tracker_of (run_session (take 7 example_session) new_session))"
    and i: "completedOperations (tracker_of (run_session (take 7 example_session) new_session)) =
        completedOperations (tracker_of (run_session (take 6 example_session) new_session))
          @ [expected_record ''posts-fetch'' (Inl (Obj (Some ''no posts'') ()))]"
    unfolding s7 by blast+
  from pending_xor_completed[OF w d, of "''user-fetch''" 8 user_fetch 5 "Inr ''user 5''"] q8
  have j: "pendingOperations (tracker_of (run_session (take 8 example_session) new_session)) =
      set (inflight_after [] (take 8 example_session))"
    by blast
  show ?thesis
    using a b e f g by (simp add: c i c5 j i8 expected_record_def)
qed

text \<open>
  C6. The promise returned by \<open>createTrackedPromise\<close> settles exactly as the promise of the
  factory does, with the same value or the same reason, whatever the tracker holds then: the
  tracker adds no failure of its own. The handler that passes the settlement on has by then
  taken the name out of the pending set and appended the record.
\<close>

theorem tracked_passthrough:
  assumes "createTrackedPromise n promiseFactory t0 = (Inr (promise, reaction), t1)"
  shows "reaction settlement t =
           (settlement,
            t\<lparr>pendingOperations := pendingOperations t - {n},
              completedOperations := completedOperations t @ [record_of n settlement]\<rparr>)"
  using assms
  by (auto simp: createTrackedPromise_def tracked_reaction_eq split: sum.splits)

theorem tracked_passthrough_witness:
  "fst (snd (projr (fst (createTrackedPromise ''user-fetch'' user_fetch new_tracker)))
          (Inl (Error ''no user'') :: js_error + string)
          \<lparr>pendingOperations = {''user-fetch''}, completedOperations = []\<rparr>)
     = Inl (Error ''no user'')
   \<and> snd (snd (projr (fst (createTrackedPromise ''user-fetch'' user_fetch new_tracker)))
          (Inr ''user 5'' :: js_error + string)
          \<lparr>pendingOperations = {''user-fetch''}, completedOperations = []\<rparr>)
     = \<lparr>pendingOperations = {},
        completedOperations = [fulfilled_record ''user-fetch'' ''user 5'']\<rparr>"
proof -
  have c: "createTrackedPromise ''user-fetch'' user_fetch (new_tracker :: (js_error, string) tracker) =
      (Inr (5, tracked_reaction ''user-fetch''),
       \<lparr>pendingOperations = {''user-fetch''}, completedOperations = []\<rparr>)"
    by (simp add: createTrackedPromise_def user_fetch_def new_tracker_def)
  show ?thesis
    using tracked_passthrough[OF c]
    by (simp add: c record_of_def)
qed




text \<open>
  C10. If the factory throws when \<open>createTrackedPromise\<close> invokes it, the exception goes to
  the caller and the tracker is as before: the name is not added to the pending set, and no
  promise and no handler exist that could append a record later, because the factory is
  invoked before anything else is done.
\<close>

theorem factory_throws:
  assumes "promiseFactory () = Inl exn"
  shows "createTrackedPromise n promiseFactory t = (Inl exn, t)
       \<and> session_step (Track n promiseFactory) st = st"
  using assms by (simp add: createTrackedPromise_def track_def)

theorem factory_throws_witness:
  "createTrackedPromise ''user-fetch'' broken_factory (new_tracker :: (js_error, string) tracker) =
     (Inl ''factory failed'', new_tracker)"
proof -
  have h: "broken_factory () = Inl ''factory failed''"
    by (simp add: broken_factory_def)
  show ?thesis
    using h factory_throws[of broken_factory "''factory failed''" "''user-fetch''"
        "new_tracker :: (js_error, string) tracker"
        "new_session :: (js_error, string) event_loop"]
    by simp
qed

end
